theory Spec2Isabelle
  imports Complex_Main
begin

section \<open>Values held by the arrays\<close>

text \<open>
  Every array of \<^verbatim>\<open>load_files.py\<close> is a numpy array of 64-bit floats
  (\<^verbatim>\<open>np.zeros\<close>, \<^verbatim>\<open>np.load\<close>), apart from the rank list, which holds the
  integers that \<^verbatim>\<open>re.findall(r'\d+', filename)\<close> reads from the file names and is
  therefore a list of naturals. A float is modelled by its exact real value, \<open>Fin 0\<close>
  being the positive zero, or by one of the four special values that numpy and
  \<^verbatim>\<open>pd.read_csv\<close> produce without raising: the negative zero, the two infinities and
  not-a-number. Rounding, overflow and underflow are not modelled.
\<close>

datatype npfloat = Fin real | NegZero | PInf | NInf | NaN

datatype error = IndexError | ValueError | TypeError

type_synonym array1 = "npfloat list"
type_synonym array2 = "npfloat list list"
type_synonym array3 = "npfloat list list list"

text \<open>\<^verbatim>\<open>rankfield[indt] == rank\<close>, at one pixel: a float against an integer rank.\<close>

fun np_eq_rank :: "npfloat \<Rightarrow> nat \<Rightarrow> bool" where
  "np_eq_rank (Fin x) rank = (x = real rank)"
| "np_eq_rank NegZero rank = (rank = 0)"
| "np_eq_rank PInf rank = False"
| "np_eq_rank NInf rank = False"
| "np_eq_rank NaN rank = False"

section \<open>The painter \<^verbatim>\<open>get_field\<close>\<close>

text \<open>\<^verbatim>\<open>np.zeros(rankfield.shape)\<close>: an array of the shape of its argument, all zero.\<close>

definition zeros_like :: "array3 \<Rightarrow> array3" where
  "zeros_like rankfield = map (map (map (\<lambda>p. Fin 0))) rankfield"

text \<open>
  \<^verbatim>\<open>fld[snapshot == rank] = v\<close> on one snapshot: the pixels of the mask take \<open>v\<close>, the
  others keep what they hold.
\<close>

definition mask_assign :: "array2 \<Rightarrow> nat \<Rightarrow> npfloat \<Rightarrow> array2 \<Rightarrow> array2" where
  "mask_assign snapshot rank v fld =
     map2 (\<lambda>srow frow. map2 (\<lambda>s f. if np_eq_rank s rank then v else f) srow frow) snapshot fld"

text \<open>
  The body of the inner loop,
  \<^verbatim>\<open>a_field[indt][rankfield[indt]==(rank)] = a[indt, indr]\<close>.
  The right-hand side is read first and raises IndexError outside the array \<open>a\<close>; then
  \<^verbatim>\<open>a_field[indt]\<close> and \<^verbatim>\<open>rankfield[indt]\<close> raise IndexError beyond the last
  snapshot. The indices come from \<^verbatim>\<open>enumerate\<close> and are never negative.
\<close>

definition paint_step :: "array3 \<Rightarrow> array2 \<Rightarrow> nat \<Rightarrow> nat \<times> nat \<Rightarrow> array3 \<Rightarrow> error + array3" where
  "paint_step rankfield a indt ir a_field =
     (case ir of (indr, rank) \<Rightarrow>
        if indt < length a \<and> indr < length (a ! indt) then
          if indt < length a_field \<and> indt < length rankfield then
            Inr (a_field[indt := mask_assign (rankfield ! indt) rank (a ! indt ! indr) (a_field ! indt)])
          else Inl IndexError
        else Inl IndexError)"

text \<open>\<^verbatim>\<open>for indr, rank in enumerate(ranks)\<close>, at a fixed timestep index.\<close>

fun paint_ranks :: "array3 \<Rightarrow> array2 \<Rightarrow> nat \<Rightarrow> (nat \<times> nat) list \<Rightarrow> array3 \<Rightarrow> error + array3" where
  "paint_ranks rankfield a indt [] a_field = Inr a_field"
| "paint_ranks rankfield a indt (ir # rest) a_field =
     (case paint_step rankfield a indt ir a_field of
        Inl e \<Rightarrow> Inl e
      | Inr a_field' \<Rightarrow> paint_ranks rankfield a indt rest a_field')"

text \<open>\<^verbatim>\<open>for indt, time in enumerate(times)\<close>; only the index is used.\<close>

fun paint_times :: "array3 \<Rightarrow> array2 \<Rightarrow> (nat \<times> nat) list \<Rightarrow> nat list \<Rightarrow> array3 \<Rightarrow> error + array3" where
  "paint_times rankfield a eranks [] a_field = Inr a_field"
| "paint_times rankfield a eranks (indt # rest) a_field =
     (case paint_ranks rankfield a indt eranks a_field of
        Inl e \<Rightarrow> Inl e
      | Inr a_field' \<Rightarrow> paint_times rankfield a eranks rest a_field')"

text \<open>
  \<^verbatim>\<open>get_field(a)\<close> with the variables of the enclosing \<^verbatim>\<open>load_fields\<close> that it
  reads (\<^verbatim>\<open>rankfield\<close>, \<^verbatim>\<open>times\<close>, \<^verbatim>\<open>ranks\<close>) as arguments.
\<close>

definition get_field :: "array3 \<Rightarrow> array1 \<Rightarrow> nat list \<Rightarrow> array2 \<Rightarrow> error + array3" where
  "get_field rankfield timesteps ranks a =
     paint_times rankfield a (enumerate 0 ranks) [0..<length timesteps] (zeros_like rankfield)"

text \<open>
  The inputs on which the painter is specified: one snapshot per timestep, and an array
  \<open>a\<close> with a row for every timestep and, in each of these rows, an entry for every
  position of the rank list.
\<close>

definition valid_input :: "array3 \<Rightarrow> array1 \<Rightarrow> nat list \<Rightarrow> array2 \<Rightarrow> bool" where
  "valid_input rankfield timesteps ranks a \<longleftrightarrow>
     length rankfield = length timesteps \<and> length timesteps \<le> length a \<and>
     list_all (\<lambda>row. length ranks \<le> length row) (take (length timesteps) a)"

text \<open>What the two loops leave at one pixel and on one snapshot, without the bounds checks.\<close>

definition pixel_paint :: "npfloat \<Rightarrow> array1 \<Rightarrow> (nat \<times> nat) list \<Rightarrow> npfloat \<Rightarrow> npfloat" where
  "pixel_paint s arow eranks v0 =
     foldl (\<lambda>v ir. if np_eq_rank s (snd ir) then arow ! fst ir else v) v0 eranks"

definition paint_grid :: "array2 \<Rightarrow> array1 \<Rightarrow> (nat \<times> nat) list \<Rightarrow> array2 \<Rightarrow> array2" where
  "paint_grid snapshot arow eranks fld =
     foldl (\<lambda>g ir. mask_assign snapshot (snd ir) (arow ! fst ir) g) fld eranks"

section \<open>The painter on a store\<close>

text \<open>
  The same code with its arrays held in a store, so that what a call writes can be told
  from what it reads. An address is a position in the store; \<^verbatim>\<open>np.zeros\<close> puts a
  new array at the first unused address. The painter is given the addresses of
  \<^verbatim>\<open>rankfield\<close>, \<^verbatim>\<open>times\<close>, \<^verbatim>\<open>ranks\<close> and \<^verbatim>\<open>a\<close>, reads the arrays
  from the store at every step of the inner loop, and writes through the address of
  \<^verbatim>\<open>a_field\<close> only. A raise leaves the store as it is at that moment.
\<close>

datatype obj = Floats3 array3 | Floats2 array2 | Floats1 array1 | Ints "nat list"

type_synonym store = "obj list"

definition alloc :: "store \<Rightarrow> obj \<Rightarrow> store \<times> nat" where
  "alloc h ob = (h @ [ob], length h)"

definition paint_step_store :: "nat \<Rightarrow> nat \<Rightarrow> nat \<Rightarrow> nat \<Rightarrow> nat \<times> nat \<Rightarrow> store \<Rightarrow> error + store" where
  "paint_step_store rf_ref a_ref out_ref indt ir h =
     (if rf_ref < length h \<and> a_ref < length h \<and> out_ref < length h then
        (case (h ! rf_ref, h ! a_ref, h ! out_ref) of
           (Floats3 rankfield, Floats2 a, Floats3 a_field) \<Rightarrow>
             (case paint_step rankfield a indt ir a_field of
                Inl e \<Rightarrow> Inl e
              | Inr a_field' \<Rightarrow> Inr (h[out_ref := Floats3 a_field']))
         | _ \<Rightarrow> Inl TypeError)
      else Inl TypeError)"

fun paint_ranks_store :: "nat \<Rightarrow> nat \<Rightarrow> nat \<Rightarrow> nat \<Rightarrow> (nat \<times> nat) list \<Rightarrow> store \<Rightarrow> store \<times> error option" where
  "paint_ranks_store rf_ref a_ref out_ref indt [] h = (h, None)"
| "paint_ranks_store rf_ref a_ref out_ref indt (ir # rest) h =
     (case paint_step_store rf_ref a_ref out_ref indt ir h of
        Inl e \<Rightarrow> (h, Some e)
      | Inr h' \<Rightarrow> paint_ranks_store rf_ref a_ref out_ref indt rest h')"

fun paint_times_store :: "nat \<Rightarrow> nat \<Rightarrow> nat \<Rightarrow> (nat \<times> nat) list \<Rightarrow> nat list \<Rightarrow> store \<Rightarrow> store \<times> error option" where
  "paint_times_store rf_ref a_ref out_ref eranks [] h = (h, None)"
| "paint_times_store rf_ref a_ref out_ref eranks (indt # rest) h =
     (case paint_ranks_store rf_ref a_ref out_ref indt eranks h of
        (h', Some e) \<Rightarrow> (h', Some e)
      | (h', None) \<Rightarrow> paint_times_store rf_ref a_ref out_ref eranks rest h')"

text \<open>The call returns the store it leaves and the address of the new field, or the error.\<close>

definition get_field_store :: "nat \<Rightarrow> nat \<Rightarrow> nat \<Rightarrow> nat \<Rightarrow> store \<Rightarrow> store \<times> (error + nat)" where
  "get_field_store rf_ref times_ref ranks_ref a_ref h =
     (if rf_ref < length h \<and> times_ref < length h \<and> ranks_ref < length h then
        (case (h ! rf_ref, h ! times_ref, h ! ranks_ref) of
           (Floats3 rankfield, Floats1 timesteps, Ints ranks) \<Rightarrow>
             (case alloc h (Floats3 (zeros_like rankfield)) of
                (h1, out_ref) \<Rightarrow>
                  (case paint_times_store rf_ref a_ref out_ref (enumerate 0 ranks)
                          [0..<length timesteps] h1 of
                     (h2, Some e) \<Rightarrow> (h2, Inl e)
                   | (h2, None) \<Rightarrow> (h2, Inr out_ref)))
         | _ \<Rightarrow> (h, Inl TypeError))
      else (h, Inl TypeError))"

text \<open>What a caller sees of a call: the error, or the array at the returned address.\<close>

definition outcome :: "store \<times> (error + nat) \<Rightarrow> error + obj" where
  "outcome res = (case snd res of Inl e \<Rightarrow> Inl e | Inr p \<Rightarrow> Inr (fst res ! p))"

section \<open>Elementwise numpy functions\<close>

text \<open>
  The functions of numpy that \<^verbatim>\<open>load_property\<close> applies, on one entry, with the
  values that IEEE 754 arithmetic and the C library give them at the zeros, the infinities
  and not-a-number. First the sign bit, the three kinds of special value and the real
  value of a finite entry.
\<close>

fun negative :: "npfloat \<Rightarrow> bool" where
  "negative (Fin x) = (x < 0)"
| "negative NegZero = True"
| "negative PInf = False"
| "negative NInf = True"
| "negative NaN = False"

fun is_nan :: "npfloat \<Rightarrow> bool" where
  "is_nan NaN = True"
| "is_nan v = False"

fun is_zero :: "npfloat \<Rightarrow> bool" where
  "is_zero (Fin x) = (x = 0)"
| "is_zero NegZero = True"
| "is_zero v = False"

fun is_inf :: "npfloat \<Rightarrow> bool" where
  "is_inf PInf = True"
| "is_inf NInf = True"
| "is_inf v = False"

fun real_of :: "npfloat \<Rightarrow> real" where
  "real_of (Fin x) = x"
| "real_of v = 0"

definition zero_signed :: "bool \<Rightarrow> npfloat" where
  "zero_signed neg = (if neg then NegZero else Fin 0)"

definition inf_signed :: "bool \<Rightarrow> npfloat" where
  "inf_signed neg = (if neg then NInf else PInf)"

text \<open>\<^verbatim>\<open>np.abs\<close> clears the sign bit.\<close>

fun np_abs :: "npfloat \<Rightarrow> npfloat" where
  "np_abs (Fin x) = Fin \<bar>x\<bar>"
| "np_abs NegZero = Fin 0"
| "np_abs PInf = PInf"
| "np_abs NInf = PInf"
| "np_abs NaN = NaN"

text \<open>
  \<^verbatim>\<open>np.sign\<close> is \<open>1\<close> above zero, \<open>-1\<close> below zero, \<open>0\<close> at a zero of either sign and
  not-a-number at not-a-number.
\<close>

fun np_sign :: "npfloat \<Rightarrow> npfloat" where
  "np_sign (Fin x) = Fin (sgn x)"
| "np_sign NegZero = Fin 0"
| "np_sign PInf = Fin 1"
| "np_sign NInf = Fin (- 1)"
| "np_sign NaN = NaN"

text \<open>\<^verbatim>\<open>np.arctan\<close> keeps a zero with its sign.\<close>

fun np_arctan :: "npfloat \<Rightarrow> npfloat" where
  "np_arctan (Fin x) = Fin (arctan x)"
| "np_arctan NegZero = NegZero"
| "np_arctan PInf = Fin (pi / 2)"
| "np_arctan NInf = Fin (- pi / 2)"
| "np_arctan NaN = NaN"

text \<open>
  Division: \<open>0 / 0\<close> and \<open>\<infinity> / \<infinity>\<close> are not-a-number; otherwise an infinite dividend or
  a zero divisor gives an infinity, and a zero dividend or an infinite divisor gives a
  zero, with the sign bits combined. numpy warns and does not raise.
\<close>

definition np_divide :: "npfloat \<Rightarrow> npfloat \<Rightarrow> npfloat" where
  "np_divide a b =
     (if is_nan a \<or> is_nan b then NaN
      else if (is_zero a \<and> is_zero b) \<or> (is_inf a \<and> is_inf b) then NaN
      else if is_inf a \<or> is_zero b then inf_signed (negative a \<noteq> negative b)
      else if is_zero a \<or> is_inf b then zero_signed (negative a \<noteq> negative b)
      else Fin (real_of a / real_of b))"

text \<open>
  Addition: the sum of opposite infinities is not-a-number; an infinity absorbs everything
  else; a sum that is zero is the positive zero unless both terms are the negative zero.
\<close>

definition np_add :: "npfloat \<Rightarrow> npfloat \<Rightarrow> npfloat" where
  "np_add a b =
     (if is_nan a \<or> is_nan b then NaN
      else if is_inf a then (if is_inf b \<and> a \<noteq> b then NaN else a)
      else if is_inf b then b
      else if a = NegZero \<and> b = NegZero then NegZero
      else Fin (real_of a + real_of b))"

text \<open>
  Multiplication: zero times infinity is not-a-number; otherwise an infinite factor gives
  an infinity and a zero factor gives a zero, with the sign bits combined.
\<close>

definition np_multiply :: "npfloat \<Rightarrow> npfloat \<Rightarrow> npfloat" where
  "np_multiply a b =
     (if is_nan a \<or> is_nan b then NaN
      else if (is_zero a \<and> is_inf b) \<or> (is_inf a \<and> is_zero b) then NaN
      else if is_inf a \<or> is_inf b then inf_signed (negative a \<noteq> negative b)
      else if is_zero a \<or> is_zero b then zero_signed (negative a \<noteq> negative b)
      else Fin (real_of a * real_of b))"

text \<open>
  \<^verbatim>\<open>np.arctan2(y, x)\<close> is the C library's \<^verbatim>\<open>atan2\<close>, with values in the closed
  range \<open>[-\<pi>, \<pi>]\<close>. It follows the sign of a zero: for \<open>y\<close> a zero the result is \<open>\<plusminus>\<pi>\<close>
  when the sign bit of \<open>x\<close> is set and the zero \<open>y\<close> itself otherwise, the sign being
  that of \<open>y\<close>. The remaining lines are the cases of the C standard in its order: \<open>x\<close> a
  zero, \<open>y\<close> infinite, \<open>x\<close> infinite, and two finite numbers that are not zero.
\<close>

definition np_arctan2 :: "npfloat \<Rightarrow> npfloat \<Rightarrow> npfloat" where
  "np_arctan2 y x =
     (if is_nan y \<or> is_nan x then NaN
      else if is_zero y then
        (if negative x then (if negative y then Fin (- pi) else Fin pi) else y)
      else if is_zero x then (if negative y then Fin (- pi / 2) else Fin (pi / 2))
      else if is_inf y then
        (if x = PInf then (if negative y then Fin (- pi / 4) else Fin (pi / 4))
         else if x = NInf then (if negative y then Fin (- 3 * pi / 4) else Fin (3 * pi / 4))
         else (if negative y then Fin (- pi / 2) else Fin (pi / 2)))
      else if x = PInf then zero_signed (negative y)
      else if x = NInf then (if negative y then Fin (- pi) else Fin pi)
      else if 0 < real_of x then Fin (arctan (real_of y / real_of x))
      else if negative y then Fin (arctan (real_of y / real_of x) - pi)
      else Fin (arctan (real_of y / real_of x) + pi))"

text \<open>
  \<^verbatim>\<open>np.multiply(np.sign(S1), (np.arctan(S0/np.abs(S1))/2.0 + np.pi/4.0))\<close> at one entry.
\<close>

definition nem_orient :: "npfloat \<Rightarrow> npfloat \<Rightarrow> npfloat" where
  "nem_orient S0 S1 =
     np_multiply (np_sign S1)
       (np_add (np_divide (np_arctan (np_divide S0 (np_abs S1))) (Fin 2))
               (np_divide (Fin pi) (Fin 4)))"

section \<open>The property resolver \<^verbatim>\<open>load_property\<close>\<close>

text \<open>
  \<^verbatim>\<open>load_pos\<close> and \<^verbatim>\<open>load_rankfield\<close> read files; what they return is an argument
  here. \<open>positions\<close> is the list of tables, one per file, and a table is a list of rows,
  one per stored timestep. Of the fifteen columns \<^verbatim>\<open>load_pos\<close> keeps, these six are
  the ones \<^verbatim>\<open>load_property\<close> reads. \<^verbatim>\<open>pd.read_csv\<close> makes them columns of
  floats: an entry can be any float, the negative zero and not-a-number (an empty cell)
  included.
\<close>

record row =
  row_v0 :: npfloat
  row_v1 :: npfloat
  row_S0 :: npfloat
  row_S1 :: npfloat
  row_S0full :: npfloat
  row_S1full :: npfloat

type_synonym table = "row list"

text \<open>\<^verbatim>\<open>np.zeros([n, m])\<close>.\<close>

definition zeros2 :: "nat \<Rightarrow> nat \<Rightarrow> array2" where
  "zeros2 n m = replicate n (replicate m (Fin 0))"

text \<open>
  \<^verbatim>\<open>arr[:, rank] = col\<close> on an array with \<open>ncols\<close> columns. The column index is checked
  against the shape (IndexError); then the values are copied, which needs one value per
  row, or a single value, which numpy broadcasts to every row (ValueError otherwise).
\<close>

definition assign_column :: "nat \<Rightarrow> array2 \<Rightarrow> nat \<Rightarrow> array1 \<Rightarrow> error + array2" where
  "assign_column ncols arr rank col =
     (if ncols \<le> rank then Inl IndexError
      else if length col = length arr then Inr (map2 (\<lambda>r c. r[rank := c]) arr col)
      else if length col = 1 then Inr (map (\<lambda>r. r[rank := col ! 0]) arr)
      else Inl ValueError)"

text \<open>
  The loop that the five branches of \<^verbatim>\<open>load_property\<close> share, for the two columns
  \<open>c0\<close> and \<open>c1\<close> of the branch:
  \<^verbatim>\<open>for rank in ranks: A[:, rank] = positions[rank][c0]; B[:, rank] = positions[rank][c1]\<close>.
  \<^verbatim>\<open>positions[rank]\<close> raises IndexError beyond the last table.
\<close>

fun fill_columns :: "table list \<Rightarrow> (row \<Rightarrow> npfloat) \<Rightarrow> (row \<Rightarrow> npfloat) \<Rightarrow> nat \<Rightarrow> nat list \<Rightarrow>
    array2 \<times> array2 \<Rightarrow> error + array2 \<times> array2" where
  "fill_columns positions c0 c1 ncols [] AB = Inr AB"
| "fill_columns positions c0 c1 ncols (rank # rest) AB =
     (if rank < length positions then
        (case assign_column ncols (fst AB) rank (map c0 (positions ! rank)) of
           Inl e \<Rightarrow> Inl e
         | Inr A' \<Rightarrow>
             (case assign_column ncols (snd AB) rank (map c1 (positions ! rank)) of
                Inl e \<Rightarrow> Inl e
              | Inr B' \<Rightarrow> fill_columns positions c0 c1 ncols rest (A', B')))
      else Inl IndexError)"

datatype property = Two_arrays array2 array2 | One_array array2

text \<open>
  \<^verbatim>\<open>load_property(input_dir, prop)\<close>. Falling off the end of the function returns
  \<^verbatim>\<open>None\<close>.
\<close>

definition load_property :: "table list \<Rightarrow> nat list \<Rightarrow> array1 \<Rightarrow> string \<Rightarrow> error + property option" where
  "load_property positions ranks timesteps prop_name =
     (let z = zeros2 (length timesteps) (length ranks); n = length ranks in
      if prop_name = ''velocity'' then
        (case fill_columns positions row_v0 row_v1 n ranks (z, z) of
           Inl e \<Rightarrow> Inl e
         | Inr (A, B) \<Rightarrow> Inr (Some (Two_arrays A B)))
      else if prop_name = ''normalised nematic'' then
        (case fill_columns positions row_S0 row_S1 n ranks (z, z) of
           Inl e \<Rightarrow> Inl e
         | Inr (A, B) \<Rightarrow> Inr (Some (Two_arrays A B)))
      else if prop_name = ''nematic'' then
        (case fill_columns positions row_S0full row_S1full n ranks (z, z) of
           Inl e \<Rightarrow> Inl e
         | Inr (A, B) \<Rightarrow> Inr (Some (Two_arrays A B)))
      else if prop_name = ''velocity angle'' then
        (case fill_columns positions row_v0 row_v1 n ranks (z, z) of
           Inl e \<Rightarrow> Inl e
         | Inr (A, B) \<Rightarrow> Inr (Some (One_array (map2 (map2 np_arctan2) B A))))
      else if prop_name = ''nematic angle'' then
        (case fill_columns positions row_S0full row_S1full n ranks (z, z) of
           Inl e \<Rightarrow> Inl e
         | Inr (A, B) \<Rightarrow> Inr (Some (One_array (map2 (map2 nem_orient) A B))))
      else Inr None)"

section \<open>The entry point \<^verbatim>\<open>load_fields\<close>\<close>

datatype fields = Two_fields array3 array3 | One_field array3

text \<open>
  \<^verbatim>\<open>load_fields(input_dir, prop)\<close>. \<^verbatim>\<open>load_property\<close> loads the same directory
  again, so it is given the same tables, ranks and timesteps. Unpacking or painting a
  result of the wrong kind is a TypeError; \<^verbatim>\<open>load_property\<close> never returns one for
  these names.
\<close>

definition load_fields :: "table list \<Rightarrow> nat list \<Rightarrow> array3 \<Rightarrow> array1 \<Rightarrow> string \<Rightarrow> error + fields option" where
  "load_fields positions ranks rankfield timesteps prop_name =
     (if prop_name \<in> set [''velocity'', ''normalised nematic'', ''nematic''] then
        (case load_property positions ranks timesteps prop_name of
           Inl e \<Rightarrow> Inl e
         | Inr (Some (Two_arrays prop0 prop1)) \<Rightarrow>
             (case get_field rankfield timesteps ranks prop0 of
                Inl e \<Rightarrow> Inl e
              | Inr f0 \<Rightarrow>
                  (case get_field rankfield timesteps ranks prop1 of
                     Inl e \<Rightarrow> Inl e
                   | Inr f1 \<Rightarrow> Inr (Some (Two_fields f0 f1))))
         | Inr _ \<Rightarrow> Inl TypeError)
      else if prop_name \<in> set [''velocity angle'', ''nematic angle''] then
        (case load_property positions ranks timesteps prop_name of
           Inl e \<Rightarrow> Inl e
         | Inr (Some (One_array p)) \<Rightarrow>
             (case get_field rankfield timesteps ranks p of
                Inl e \<Rightarrow> Inl e
              | Inr f \<Rightarrow> Inr (Some (One_field f)))
         | Inr _ \<Rightarrow> Inl TypeError)
      else Inr None)"

text \<open>
  The tables fit the rank list and the time axis: every loaded rank is the position of a
  table and of a column, and every such table has one row per timestep.
\<close>

definition tables_fit :: "table list \<Rightarrow> nat list \<Rightarrow> nat \<Rightarrow> bool" where
  "tables_fit positions ranks n \<longleftrightarrow>
     list_all (\<lambda>r. r < length ranks \<and> r < length positions \<and> length (positions ! r) = n) ranks"

section \<open>Notions used to state the properties\<close>

text \<open>The five names \<^verbatim>\<open>load_property\<close> and \<^verbatim>\<open>load_fields\<close> test for.\<close>

definition recognised :: "string list" where
  "recognised = [''velocity'', ''normalised nematic'', ''nematic'', ''velocity angle'',
                 ''nematic angle'']"

text \<open>The two columns that the branch of a recognised name reads.\<close>

definition columns_of :: "string \<Rightarrow> (row \<Rightarrow> npfloat) \<times> (row \<Rightarrow> npfloat)" where
  "columns_of prop_name =
     (if prop_name = ''velocity'' \<or> prop_name = ''velocity angle'' then (row_v0, row_v1)
      else if prop_name = ''normalised nematic'' then (row_S0, row_S1)
      else (row_S0full, row_S1full))"

text \<open>What the branch of a recognised name returns, from its two filled arrays.\<close>

definition derive :: "string \<Rightarrow> array2 \<Rightarrow> array2 \<Rightarrow> property" where
  "derive prop_name A B =
     (if prop_name = ''velocity angle'' then One_array (map2 (map2 np_arctan2) B A)
      else if prop_name = ''nematic angle'' then One_array (map2 (map2 nem_orient) A B)
      else Two_arrays A B)"

text \<open>The arrays of a result, the fields of a result, and the shape of a 2D array.\<close>

fun arrays_of :: "property \<Rightarrow> array2 list" where
  "arrays_of (Two_arrays A B) = [A, B]"
| "arrays_of (One_array A) = [A]"

fun fields_of :: "fields \<Rightarrow> array3 list" where
  "fields_of (Two_fields f0 f1) = [f0, f1]"
| "fields_of (One_field f) = [f]"

definition has_shape :: "nat \<Rightarrow> nat \<Rightarrow> array2 \<Rightarrow> bool" where
  "has_shape n m arr \<longleftrightarrow> length arr = n \<and> list_all (\<lambda>r. length r = m) arr"


text \<open>
  The table of recognised properties of the specification: what each property holds for
  one row of a cell's table (one cell at one timestep), one entry per returned array.
\<close>

definition resolved_entry :: "string \<Rightarrow> row \<Rightarrow> npfloat list" where
  "resolved_entry prop_name \<rho> =
     (if prop_name = ''velocity'' then [row_v0 \<rho>, row_v1 \<rho>]
      else if prop_name = ''normalised nematic'' then [row_S0 \<rho>, row_S1 \<rho>]
      else if prop_name = ''nematic'' then [row_S0full \<rho>, row_S1full \<rho>]
      else if prop_name = ''velocity angle'' then [np_arctan2 (row_v1 \<rho>) (row_v0 \<rho>)]
      else [nem_orient (row_S0full \<rho>) (row_S1full \<rho>)])"

section \<open>Facts about the painter\<close>

lemma mask_assign_shape:
  "map length fld = map length snapshot \<Longrightarrow>
   map length (mask_assign snapshot rank v fld) = map length snapshot"
proof (induction snapshot arbitrary: fld)
  case Nil
  then show ?case by (simp add: mask_assign_def)
next
  case (Cons srow snapshot)
  then obtain frow fld' where f: "fld = frow # fld'" by (cases fld) auto
  with Cons.prems have "length frow = length srow" "map length fld' = map length snapshot"
    by auto
  with Cons.IH [of fld'] f show ?case by (simp add: mask_assign_def)
qed

lemma mask_assign_nth:
  assumes "map length fld = map length snapshot" "y < length snapshot" "x < length (snapshot ! y)"
  shows "mask_assign snapshot rank v fld ! y ! x =
           (if np_eq_rank (snapshot ! y ! x) rank then v else fld ! y ! x)"
proof -
  from assms(1) have len: "length fld = length snapshot" by (metis length_map)
  from assms(1,2) len have "length (fld ! y) = length (snapshot ! y)"
    by (metis nth_map)
  with assms(2,3) len show ?thesis by (simp add: mask_assign_def)
qed

lemma paint_grid_shape:
  "map length fld = map length snapshot \<Longrightarrow>
   map length (paint_grid snapshot arow eranks fld) = map length snapshot"
  unfolding paint_grid_def
  by (induction eranks arbitrary: fld) (simp_all add: mask_assign_shape)

lemma paint_grid_nth:
  "map length fld = map length snapshot \<Longrightarrow> y < length snapshot \<Longrightarrow> x < length (snapshot ! y) \<Longrightarrow>
   paint_grid snapshot arow eranks fld ! y ! x =
     pixel_paint (snapshot ! y ! x) arow eranks (fld ! y ! x)"
  unfolding paint_grid_def pixel_paint_def
  by (induction eranks arbitrary: fld) (simp_all add: mask_assign_shape mask_assign_nth)


lemma paint_ranks_ok:
  "indt < length a \<Longrightarrow> indt < length a_field \<Longrightarrow> indt < length rankfield \<Longrightarrow>
   \<forall>ir\<in>set eranks. fst ir < length (a ! indt) \<Longrightarrow>
   paint_ranks rankfield a indt eranks a_field =
     Inr (a_field[indt := paint_grid (rankfield ! indt) (a ! indt) eranks (a_field ! indt)])"
proof (induction eranks arbitrary: a_field)
  case Nil
  then show ?case by (simp add: paint_grid_def)
next
  case (Cons ir eranks)
  obtain indr rank where ir: "ir = (indr, rank)" by (cases ir)
  let ?f = "a_field[indt := mask_assign (rankfield ! indt) rank (a ! indt ! indr) (a_field ! indt)]"
  from Cons.prems ir have step: "paint_step rankfield a indt ir a_field = Inr ?f"
    by (simp add: paint_step_def)
  from Cons.prems have "indt < length ?f" "\<forall>ir\<in>set eranks. fst ir < length (a ! indt)"
    by simp_all
  with Cons.IH [of ?f] Cons.prems(1,3)
  have "paint_ranks rankfield a indt eranks ?f =
          Inr (?f[indt := paint_grid (rankfield ! indt) (a ! indt) eranks (?f ! indt)])"
    by blast
  with step Cons.prems(2) ir show ?case by (simp add: paint_grid_def)
qed

lemma paint_times_ok:
  "distinct ts \<Longrightarrow>
   \<forall>t\<in>set ts. t < length a \<and> t < length a_field \<and> t < length rankfield \<and>
              (\<forall>ir\<in>set eranks. fst ir < length (a ! t)) \<Longrightarrow>
   \<exists>out. paint_times rankfield a eranks ts a_field = Inr out \<and> length out = length a_field \<and>
     (\<forall>t<length a_field. out ! t =
        (if t \<in> set ts then paint_grid (rankfield ! t) (a ! t) eranks (a_field ! t)
         else a_field ! t))"
proof (induction ts arbitrary: a_field)
  case Nil
  then show ?case by simp
next
  case (Cons t0 ts)
  let ?f = "a_field[t0 := paint_grid (rankfield ! t0) (a ! t0) eranks (a_field ! t0)]"
  from Cons.prems have step: "paint_ranks rankfield a t0 eranks a_field = Inr ?f"
    by (simp add: paint_ranks_ok)
  from Cons.prems have "distinct ts"
    "\<forall>t\<in>set ts. t < length a \<and> t < length ?f \<and> t < length rankfield \<and>
              (\<forall>ir\<in>set eranks. fst ir < length (a ! t))"
    by simp_all
  from Cons.IH [OF this] obtain out where out:
    "paint_times rankfield a eranks ts ?f = Inr out" "length out = length ?f"
    "\<forall>t<length ?f. out ! t =
        (if t \<in> set ts then paint_grid (rankfield ! t) (a ! t) eranks (?f ! t) else ?f ! t)"
    by blast
  from Cons.prems(1) have t0: "t0 \<notin> set ts" by simp
  have "\<forall>t<length a_field. out ! t =
        (if t \<in> set (t0 # ts) then paint_grid (rankfield ! t) (a ! t) eranks (a_field ! t)
         else a_field ! t)"
  proof (intro allI impI)
    fix t assume t: "t < length a_field"
    with out(3) have o: "out ! t =
        (if t \<in> set ts then paint_grid (rankfield ! t) (a ! t) eranks (?f ! t) else ?f ! t)"
      by simp
    show "out ! t =
        (if t \<in> set (t0 # ts) then paint_grid (rankfield ! t) (a ! t) eranks (a_field ! t)
         else a_field ! t)"
    proof (cases "t = t0")
      case True
      with o t0 t show ?thesis by simp
    next
      case False
      with o show ?thesis by simp
    qed
  qed
  with step out(1,2) show ?case by simp
qed

lemma enumerate_fst_less: "ir \<in> set (enumerate 0 ranks) \<Longrightarrow> fst ir < length ranks"
  by (auto simp: in_set_enumerate_eq)

lemma valid_input_row:
  "valid_input rankfield timesteps ranks a \<Longrightarrow> t < length timesteps \<Longrightarrow>
   length ranks \<le> length (a ! t)"
  unfolding valid_input_def list_all_length by auto

lemma get_field_ok:
  assumes "valid_input rankfield timesteps ranks a"
  shows "\<exists>out. get_field rankfield timesteps ranks a = Inr out \<and> length out = length rankfield \<and>
     (\<forall>t<length rankfield. out ! t =
        paint_grid (rankfield ! t) (a ! t) (enumerate 0 ranks) (zeros_like rankfield ! t))"
proof -
  from assms have len: "length rankfield = length timesteps" "length timesteps \<le> length a"
    by (simp_all add: valid_input_def)
  have "\<forall>t\<in>set [0..<length timesteps]. t < length a \<and> t < length (zeros_like rankfield) \<and>
          t < length rankfield \<and> (\<forall>ir\<in>set (enumerate 0 ranks). fst ir < length (a ! t))"
  proof
    fix t assume "t \<in> set [0..<length timesteps]"
    then have t: "t < length timesteps" by simp
    from valid_input_row [OF assms t] have "\<forall>ir\<in>set (enumerate 0 ranks). fst ir < length (a ! t)"
      using enumerate_fst_less by fastforce
    with t len show "t < length a \<and> t < length (zeros_like rankfield) \<and>
          t < length rankfield \<and> (\<forall>ir\<in>set (enumerate 0 ranks). fst ir < length (a ! t))"
      by (simp add: zeros_like_def)
  qed
  from paint_times_ok [OF distinct_upt this] len show ?thesis
    by (simp add: get_field_def zeros_like_def)
qed


lemma pixel_paint_no_match:
  "\<forall>ir\<in>set eranks. \<not> np_eq_rank s (snd ir) \<Longrightarrow> pixel_paint s arow eranks v = v"
  unfolding pixel_paint_def by (induction eranks arbitrary: v) simp_all

lemma pixel_paint_last:
  assumes "np_eq_rank s r" "\<forall>ir\<in>set post. \<not> np_eq_rank s (snd ir)"
  shows "pixel_paint s arow (pre @ (i, r) # post) v = arow ! i"
proof -
  have "pixel_paint s arow (pre @ (i, r) # post) v =
          pixel_paint s arow post (pixel_paint s arow ((i, r) # []) (pixel_paint s arow pre v))"
    by (simp add: pixel_paint_def)
  also have "\<dots> = pixel_paint s arow ((i, r) # []) (pixel_paint s arow pre v)"
    using assms(2) by (rule pixel_paint_no_match)
  also have "\<dots> = arow ! i" using assms(1) by (simp add: pixel_paint_def)
  finally show ?thesis .
qed

lemma enumerate_split:
  assumes "i < length ranks"
  shows "enumerate 0 ranks =
           enumerate 0 (take i ranks) @ (i, ranks ! i) # enumerate (Suc i) (drop (Suc i) ranks)"
proof -
  from assms have "ranks = take i ranks @ ranks ! i # drop (Suc i) ranks"
    by (rule id_take_nth_drop)
  then have "enumerate 0 ranks = enumerate 0 (take i ranks @ ranks ! i # drop (Suc i) ranks)"
    by simp
  also have "\<dots> = enumerate 0 (take i ranks) @ (i, ranks ! i) # enumerate (Suc i) (drop (Suc i) ranks)"
    using assms by (simp add: enumerate_append_eq)
  finally show ?thesis .
qed

lemma np_eq_rank_Fin [simp]: "np_eq_rank (Fin (real r)) r' \<longleftrightarrow> r = r'"
  by simp

lemma zeros_like_nth:
  "t < length rankfield \<Longrightarrow> zeros_like rankfield ! t = map (map (\<lambda>p. Fin 0)) (rankfield ! t)"
  by (simp add: zeros_like_def)

lemma get_field_pixel:
  assumes "valid_input rankfield timesteps ranks a"
  shows "\<exists>out. get_field rankfield timesteps ranks a = Inr out \<and> length out = length rankfield \<and>
     map (map length) out = map (map length) rankfield \<and>
     (\<forall>t y x. t < length rankfield \<longrightarrow> y < length (rankfield ! t) \<longrightarrow>
        x < length (rankfield ! t ! y) \<longrightarrow>
        out ! t ! y ! x = pixel_paint (rankfield ! t ! y ! x) (a ! t) (enumerate 0 ranks) (Fin 0))"
proof -
  from get_field_ok [OF assms] obtain out where out:
    "get_field rankfield timesteps ranks a = Inr out" "length out = length rankfield"
    "\<forall>t<length rankfield. out ! t =
        paint_grid (rankfield ! t) (a ! t) (enumerate 0 ranks) (zeros_like rankfield ! t)"
    by blast
  have shape0: "map length (zeros_like rankfield ! t) = map length (rankfield ! t)"
    if "t < length rankfield" for t
    using that by (simp add: zeros_like_nth comp_def)
  have "map (map length) out = map (map length) rankfield"
  proof (rule nth_equalityI)
    show "length (map (map length) out) = length (map (map length) rankfield)"
      using out(2) by simp
  next
    fix t assume "t < length (map (map length) out)"
    with out(2) have t: "t < length rankfield" by simp
    with out(3) have "map length (out ! t) = map length (rankfield ! t)"
      by (simp add: paint_grid_shape shape0)
    with t out(2) show "map (map length) out ! t = map (map length) rankfield ! t" by simp
  qed
  moreover have "out ! t ! y ! x =
      pixel_paint (rankfield ! t ! y ! x) (a ! t) (enumerate 0 ranks) (Fin 0)"
    if "t < length rankfield" "y < length (rankfield ! t)" "x < length (rankfield ! t ! y)"
    for t y x
  proof -
    from that out(3) have "out ! t ! y ! x =
        pixel_paint (rankfield ! t ! y ! x) (a ! t) (enumerate 0 ranks)
          (zeros_like rankfield ! t ! y ! x)"
      by (simp add: paint_grid_nth shape0)
    with that show ?thesis by (simp add: zeros_like_nth)
  qed
  ultimately show ?thesis using out(1,2) by blast
qed

lemma get_field_position:
  assumes "valid_input rankfield timesteps ranks a"
    and "t < length timesteps" and "i < length ranks"
    and "\<forall>j<length ranks. i < j \<longrightarrow> ranks ! j \<noteq> ranks ! i"
    and "y < length (rankfield ! t)" and "x < length (rankfield ! t ! y)"
    and "rankfield ! t ! y ! x = Fin (real (ranks ! i))"
  shows "\<exists>out. get_field rankfield timesteps ranks a = Inr out \<and> out ! t ! y ! x = a ! t ! i"
proof -
  from assms(1,2) have t: "t < length rankfield" by (simp add: valid_input_def)
  from get_field_pixel [OF assms(1)] t assms(5,6) obtain out where out:
    "get_field rankfield timesteps ranks a = Inr out"
    "out ! t ! y ! x = pixel_paint (rankfield ! t ! y ! x) (a ! t) (enumerate 0 ranks) (Fin 0)"
    by blast
  have later: "\<forall>ir\<in>set (enumerate (Suc i) (drop (Suc i) ranks)).
                 \<not> np_eq_rank (Fin (real (ranks ! i))) (snd ir)"
  proof
    fix ir assume "ir \<in> set (enumerate (Suc i) (drop (Suc i) ranks))"
    then have "snd ir \<in> set (drop (Suc i) ranks)"
      by (metis in_set_zipE enumerate_eq_zip prod.collapse)
    then obtain k where "k < length ranks - Suc i" "snd ir = ranks ! (Suc i + k)"
      by (auto simp: in_set_conv_nth)
    with assms(4) have "snd ir \<noteq> ranks ! i" by simp
    then show "\<not> np_eq_rank (Fin (real (ranks ! i))) (snd ir)" by simp
  qed
  have "pixel_paint (Fin (real (ranks ! i))) (a ! t) (enumerate 0 ranks) (Fin 0) = a ! t ! i"
    by (subst enumerate_split [OF assms(3)], rule pixel_paint_last) (simp, rule later)
  with out assms(7) show ?thesis by simp
qed

section \<open>Facts about the painter on a store\<close>

lemma paint_step_store_fresh:
  assumes "paint_step_store rf_ref a_ref (length h) indt ir (h @ [x]) = Inr h'"
  shows "\<exists>fld. h' = h @ [Floats3 fld]"
  using assms
  by (auto simp add: paint_step_store_def split: if_splits obj.splits sum.splits)

lemma paint_ranks_store_fresh:
  "\<exists>y. fst (paint_ranks_store rf_ref a_ref (length h) indt eranks (h @ [x])) = h @ [y]"
proof (induction eranks arbitrary: x)
  case Nil
  then show ?case by simp
next
  case (Cons ir eranks)
  show ?case
  proof (cases "paint_step_store rf_ref a_ref (length h) indt ir (h @ [x])")
    case (Inl e)
    then show ?thesis by simp
  next
    case (Inr h')
    from paint_step_store_fresh [OF this] obtain fld where "h' = h @ [Floats3 fld]" by blast
    with Inr Cons.IH [of "Floats3 fld"] show ?thesis by simp
  qed
qed

lemma paint_times_store_fresh:
  "\<exists>y. fst (paint_times_store rf_ref a_ref (length h) eranks ts (h @ [x])) = h @ [y]"
proof (induction ts arbitrary: x)
  case Nil
  then show ?case by simp
next
  case (Cons indt ts)
  from paint_ranks_store_fresh [of rf_ref a_ref h indt eranks x] obtain y where
    y: "fst (paint_ranks_store rf_ref a_ref (length h) indt eranks (h @ [x])) = h @ [y]"
    by blast
  then obtain r where r: "paint_ranks_store rf_ref a_ref (length h) indt eranks (h @ [x]) = (h @ [y], r)"
    by (metis prod.collapse)
  show ?case
  proof (cases r)
    case None
    with r Cons.IH [of y] show ?thesis by simp
  next
    case (Some e)
    with r show ?thesis by simp
  qed
qed

lemma get_field_store_frame:
  "fst (get_field_store rf_ref times_ref ranks_ref a_ref h) = h \<or>
   (\<exists>y. fst (get_field_store rf_ref times_ref ranks_ref a_ref h) = h @ [y])"
proof -
  have "\<exists>y. fst (case paint_times_store rf_ref a_ref (length h) eranks ts (h @ [x]) of
                    (h2, Some e) \<Rightarrow> (h2, Inl e)
                  | (h2, None) \<Rightarrow> (h2, Inr (length h))) = h @ [y]" for eranks ts x
    using paint_times_store_fresh [of rf_ref a_ref h eranks ts x]
    by (auto split: prod.splits option.splits)
  then show ?thesis
    by (auto simp add: get_field_store_def alloc_def split: obj.splits)
qed


lemma paint_step_store_eq:
  assumes "rf_ref < length h" "a_ref < length h"
    and "h ! rf_ref = Floats3 rankfield" "h ! a_ref = Floats2 a"
  shows "paint_step_store rf_ref a_ref (length h) indt ir (h @ [Floats3 fld]) =
           (case paint_step rankfield a indt ir fld of
              Inl e \<Rightarrow> Inl e
            | Inr fld' \<Rightarrow> Inr (h @ [Floats3 fld']))"
  using assms by (simp add: paint_step_store_def nth_append split: sum.splits)

lemma paint_ranks_store_eq:
  assumes "rf_ref < length h" "a_ref < length h"
    and "h ! rf_ref = Floats3 rankfield" "h ! a_ref = Floats2 a"
  shows "\<exists>g. paint_ranks_store rf_ref a_ref (length h) indt eranks (h @ [Floats3 fld]) =
           (h @ [Floats3 g],
            case paint_ranks rankfield a indt eranks fld of Inl e \<Rightarrow> Some e | Inr f \<Rightarrow> None) \<and>
           (\<forall>f. paint_ranks rankfield a indt eranks fld = Inr f \<longrightarrow> g = f)"
proof (induction eranks arbitrary: fld)
  case Nil
  then show ?case by simp
next
  case (Cons ir eranks)
  note step = paint_step_store_eq [OF assms, of indt ir fld]
  show ?case
  proof (cases "paint_step rankfield a indt ir fld")
    case (Inl e)
    with step show ?thesis by simp
  next
    case (Inr fld')
    with step Cons.IH [of fld'] show ?thesis by simp
  qed
qed

lemma paint_times_store_eq:
  assumes "rf_ref < length h" "a_ref < length h"
    and "h ! rf_ref = Floats3 rankfield" "h ! a_ref = Floats2 a"
  shows "\<exists>g. paint_times_store rf_ref a_ref (length h) eranks ts (h @ [Floats3 fld]) =
           (h @ [Floats3 g],
            case paint_times rankfield a eranks ts fld of Inl e \<Rightarrow> Some e | Inr f \<Rightarrow> None) \<and>
           (\<forall>f. paint_times rankfield a eranks ts fld = Inr f \<longrightarrow> g = f)"
proof (induction ts arbitrary: fld)
  case Nil
  then show ?case by simp
next
  case (Cons indt ts)
  from paint_ranks_store_eq [OF assms, of indt eranks fld] obtain g where g:
    "paint_ranks_store rf_ref a_ref (length h) indt eranks (h @ [Floats3 fld]) =
       (h @ [Floats3 g],
        case paint_ranks rankfield a indt eranks fld of Inl e \<Rightarrow> Some e | Inr f \<Rightarrow> None)"
    "\<forall>f. paint_ranks rankfield a indt eranks fld = Inr f \<longrightarrow> g = f"
    by blast
  show ?case
  proof (cases "paint_ranks rankfield a indt eranks fld")
    case (Inl e)
    with g(1) show ?thesis by simp
  next
    case (Inr f)
    with g have "paint_ranks_store rf_ref a_ref (length h) indt eranks (h @ [Floats3 fld]) =
       (h @ [Floats3 f], None)" by simp
    with Inr Cons.IH [of f] show ?thesis by simp
  qed
qed

lemma get_field_store_eq:
  assumes "rf_ref < length h" "times_ref < length h" "ranks_ref < length h" "a_ref < length h"
    and "h ! rf_ref = Floats3 rankfield" "h ! times_ref = Floats1 timesteps"
    and "h ! ranks_ref = Ints ranks" "h ! a_ref = Floats2 a"
  shows "\<exists>g. fst (get_field_store rf_ref times_ref ranks_ref a_ref h) = h @ [Floats3 g] \<and>
           outcome (get_field_store rf_ref times_ref ranks_ref a_ref h) =
             (case get_field rankfield timesteps ranks a of
                Inl e \<Rightarrow> Inl e | Inr f \<Rightarrow> Inr (Floats3 f))"
proof -
  from paint_times_store_eq [OF assms(1,4,5,8),
      of "enumerate 0 ranks" "[0..<length timesteps]" "zeros_like rankfield"]
  obtain g where g:
    "paint_times_store rf_ref a_ref (length h) (enumerate 0 ranks) [0..<length timesteps]
       (h @ [Floats3 (zeros_like rankfield)]) =
       (h @ [Floats3 g],
        case get_field rankfield timesteps ranks a of Inl e \<Rightarrow> Some e | Inr f \<Rightarrow> None)"
    "\<forall>f. get_field rankfield timesteps ranks a = Inr f \<longrightarrow> g = f"
    by (auto simp add: get_field_def)
  show ?thesis
  proof (cases "get_field rankfield timesteps ranks a")
    case (Inl e)
    with g(1) assms show ?thesis
      by (simp add: get_field_store_def alloc_def outcome_def)
  next
    case (Inr f)
    with g assms show ?thesis
      by (simp add: get_field_store_def alloc_def outcome_def)
  qed
qed

section \<open>Facts about the elementwise functions\<close>











lemma nem_orient_finite:
  assumes "S1 \<noteq> 0"
  shows "nem_orient (Fin S0) (Fin S1) = Fin (sgn S1 * (arctan (S0 / \<bar>S1\<bar>) / 2 + pi / 4))"
proof -
  let ?q = "S0 / \<bar>S1\<bar>"
  from assms have q: "np_divide (Fin S0) (np_abs (Fin S1)) = Fin ?q"
    by (simp add: np_divide_def zero_signed_def)
  have h: "np_divide (np_arctan (Fin ?q)) (Fin 2) = Fin (arctan ?q / 2)"
    by (simp add: np_divide_def zero_signed_def)
  have p: "np_divide (Fin pi) (Fin 4) = Fin (pi / 4)"
    by (simp add: np_divide_def)
  have s: "np_add (Fin (arctan ?q / 2)) (Fin (pi / 4)) = Fin (arctan ?q / 2 + pi / 4)"
    by (simp add: np_add_def)
  from arctan_lbound [of ?q] have nz: "arctan ?q / 2 + pi / 4 \<noteq> 0" by linarith
  from assms have sg: "sgn S1 \<noteq> 0" by (simp add: sgn_zero_iff)
  from nz sg have "np_multiply (np_sign (Fin S1)) (Fin (arctan ?q / 2 + pi / 4)) =
      Fin (sgn S1 * (arctan ?q / 2 + pi / 4))"
    by (simp add: np_multiply_def)
  with q h p s show ?thesis by (simp add: nem_orient_def)
qed

lemma nem_orient_values:
  "nem_orient (Fin 0) (Fin 1) = Fin (pi / 4)" "nem_orient (Fin 0) (Fin (- 1)) = Fin (- pi / 4)"
  using nem_orient_finite [of 1 0] nem_orient_finite [of "- 1" 0] by simp_all

lemma nem_orient_zero:
  "nem_orient (Fin 0) (Fin 0) = NaN" "S0 \<noteq> 0 \<Longrightarrow> nem_orient (Fin S0) (Fin 0) = Fin 0"
  by (auto simp add: nem_orient_def np_divide_def np_add_def np_multiply_def inf_signed_def
      zero_signed_def)

lemma nem_orient_negzero:
  "nem_orient NegZero (Fin 1) = Fin (pi / 4)" "nem_orient NegZero (Fin (- 1)) = Fin (- pi / 4)"
  by (simp_all add: nem_orient_def np_divide_def np_add_def np_multiply_def zero_signed_def)

section \<open>Facts about the property resolver\<close>

lemma assign_column_ok:
  assumes "rank < ncols" "length col = length arr"
  shows "assign_column ncols arr rank col = Inr (map2 (\<lambda>r c. r[rank := c]) arr col)"
  using assms by (simp add: assign_column_def)

lemma assigned_nth:
  assumes "length col = length arr" "t < length arr"
  shows "map2 (\<lambda>r c. r[rank := c]) arr col ! t = (arr ! t)[rank := col ! t]"
  using assms by simp

lemma fill_columns_ok:
  assumes "\<forall>r\<in>set ranks. r < ncols \<and> r < length positions \<and> length (positions ! r) = n"
    and "length A = n" and "length B = n"
    and "\<forall>t<n. length (A ! t) = ncols \<and> length (B ! t) = ncols"
  shows "\<exists>A' B'. fill_columns positions c0 c1 ncols ranks (A, B) = Inr (A', B') \<and>
           length A' = n \<and> length B' = n \<and>
           (\<forall>t<n. length (A' ! t) = ncols \<and> length (B' ! t) = ncols \<and>
              (\<forall>c<ncols.
                 A' ! t ! c = (if c \<in> set ranks then c0 (positions ! c ! t) else A ! t ! c) \<and>
                 B' ! t ! c = (if c \<in> set ranks then c1 (positions ! c ! t) else B ! t ! c)))"
  using assms
proof (induction ranks arbitrary: A B)
  case Nil
  then show ?case by simp
next
  case (Cons r rs)
  let ?A1 = "map2 (\<lambda>row c. row[r := c]) A (map c0 (positions ! r))"
  let ?B1 = "map2 (\<lambda>row c. row[r := c]) B (map c1 (positions ! r))"
  from Cons.prems(1) have r: "r < ncols" "r < length positions" "length (positions ! r) = n"
    by simp_all
  from r Cons.prems(2,3) have
    a1: "assign_column ncols A r (map c0 (positions ! r)) = Inr ?A1" and
    b1: "assign_column ncols B r (map c1 (positions ! r)) = Inr ?B1"
    by (simp_all add: assign_column_ok)
  from r a1 b1 have step:
    "fill_columns positions c0 c1 ncols (r # rs) (A, B) =
       fill_columns positions c0 c1 ncols rs (?A1, ?B1)"
    by simp
  have len1: "length ?A1 = n" "length ?B1 = n" using r Cons.prems(2,3) by simp_all
  have nth1: "?A1 ! t = (A ! t)[r := c0 (positions ! r ! t)]"
             "?B1 ! t = (B ! t)[r := c1 (positions ! r ! t)]" if "t < n" for t
    using that r Cons.prems(2,3) by simp_all
  have rows1: "\<forall>t<n. length (?A1 ! t) = ncols \<and> length (?B1 ! t) = ncols"
    using nth1 Cons.prems(4) by simp
  from Cons.prems(1) have rs: "\<forall>r\<in>set rs. r < ncols \<and> r < length positions \<and> length (positions ! r) = n"
    by simp
  from Cons.IH [OF rs len1 rows1] obtain A' B' where res:
    "fill_columns positions c0 c1 ncols rs (?A1, ?B1) = Inr (A', B')"
    "length A' = n" "length B' = n"
    "\<forall>t<n. length (A' ! t) = ncols \<and> length (B' ! t) = ncols \<and>
       (\<forall>c<ncols.
          A' ! t ! c = (if c \<in> set rs then c0 (positions ! c ! t) else ?A1 ! t ! c) \<and>
          B' ! t ! c = (if c \<in> set rs then c1 (positions ! c ! t) else ?B1 ! t ! c))"
    by blast
  have "\<forall>t<n. length (A' ! t) = ncols \<and> length (B' ! t) = ncols \<and>
       (\<forall>c<ncols.
          A' ! t ! c = (if c \<in> set (r # rs) then c0 (positions ! c ! t) else A ! t ! c) \<and>
          B' ! t ! c = (if c \<in> set (r # rs) then c1 (positions ! c ! t) else B ! t ! c))"
  proof (intro allI impI)
    fix t assume t: "t < n"
    from res(4) t have l: "length (A' ! t) = ncols \<and> length (B' ! t) = ncols" by blast
    have "A' ! t ! c = (if c \<in> set (r # rs) then c0 (positions ! c ! t) else A ! t ! c) \<and>
          B' ! t ! c = (if c \<in> set (r # rs) then c1 (positions ! c ! t) else B ! t ! c)"
      if c: "c < ncols" for c
    proof -
      from res(4) t c have e:
        "A' ! t ! c = (if c \<in> set rs then c0 (positions ! c ! t) else ?A1 ! t ! c)"
        "B' ! t ! c = (if c \<in> set rs then c1 (positions ! c ! t) else ?B1 ! t ! c)"
        by blast+
      from Cons.prems(4) t have la: "length (A ! t) = ncols" "length (B ! t) = ncols" by simp_all
      show ?thesis
      proof (cases "c = r")
        case True
        with e nth1 [OF t] la r show ?thesis by simp
      next
        case False
        with e nth1 [OF t] show ?thesis by simp
      qed
    qed
    with l show "length (A' ! t) = ncols \<and> length (B' ! t) = ncols \<and>
       (\<forall>c<ncols.
          A' ! t ! c = (if c \<in> set (r # rs) then c0 (positions ! c ! t) else A ! t ! c) \<and>
          B' ! t ! c = (if c \<in> set (r # rs) then c1 (positions ! c ! t) else B ! t ! c))"
      by blast
  qed
  with step res(1,2,3) show ?case by simp
qed

lemma assign_column_out_of_range: "ncols \<le> rank \<Longrightarrow> assign_column ncols arr rank col = Inl IndexError"
  by (simp add: assign_column_def)

lemma fill_columns_fault:
  "\<exists>r\<in>set ranks. ncols \<le> r \<Longrightarrow> \<exists>e. fill_columns positions c0 c1 ncols ranks AB = Inl e"
proof (induction ranks arbitrary: AB)
  case Nil
  then show ?case by simp
next
  case (Cons r rs)
  show ?case
  proof (cases "ncols \<le> r")
    case True
    then show ?thesis by (simp add: assign_column_out_of_range)
  next
    case False
    with Cons.prems have "\<exists>r\<in>set rs. ncols \<le> r" by simp
    from Cons.IH [OF this] show ?thesis by (auto split: sum.splits)
  qed
qed

lemma load_property_eq:
  assumes "prop_name \<in> set recognised"
  shows "load_property positions ranks timesteps prop_name =
     (case fill_columns positions (fst (columns_of prop_name)) (snd (columns_of prop_name))
             (length ranks) ranks
             (zeros2 (length timesteps) (length ranks), zeros2 (length timesteps) (length ranks)) of
        Inl e \<Rightarrow> Inl e
      | Inr AB \<Rightarrow> Inr (Some (derive prop_name (fst AB) (snd AB))))"
  using assms
  by (auto simp add: recognised_def load_property_def columns_of_def derive_def Let_def
      split: sum.splits)

lemma tables_fit_all:
  "tables_fit positions ranks n \<Longrightarrow>
   \<forall>r\<in>set ranks. r < length ranks \<and> r < length positions \<and> length (positions ! r) = n"
  by (simp add: tables_fit_def list_all_iff)

lemma load_property_ok:
  assumes "prop_name \<in> set recognised" "tables_fit positions ranks (length timesteps)"
  shows "\<exists>A B. load_property positions ranks timesteps prop_name =
                 Inr (Some (derive prop_name A B)) \<and>
           length A = length timesteps \<and> length B = length timesteps \<and>
           (\<forall>t<length timesteps. length (A ! t) = length ranks \<and> length (B ! t) = length ranks \<and>
              (\<forall>c<length ranks.
                 A ! t ! c = (if c \<in> set ranks
                              then fst (columns_of prop_name) (positions ! c ! t) else Fin 0) \<and>
                 B ! t ! c = (if c \<in> set ranks
                              then snd (columns_of prop_name) (positions ! c ! t) else Fin 0)))"
proof -
  let ?n = "length timesteps" and ?m = "length ranks"
  let ?z = "zeros2 ?n ?m"
  have z: "length ?z = ?n" "\<forall>t<?n. length (?z ! t) = ?m \<and> length (?z ! t) = ?m"
    by (simp_all add: zeros2_def)
  from fill_columns_ok [OF tables_fit_all [OF assms(2)] z(1) z(1) z(2),
      of "fst (columns_of prop_name)" "snd (columns_of prop_name)"]
  obtain A B where res:
    "fill_columns positions (fst (columns_of prop_name)) (snd (columns_of prop_name)) ?m ranks
       (?z, ?z) = Inr (A, B)"
    "length A = ?n" "length B = ?n"
    "\<forall>t<?n. length (A ! t) = ?m \<and> length (B ! t) = ?m \<and>
       (\<forall>c<?m.
          A ! t ! c = (if c \<in> set ranks
                       then fst (columns_of prop_name) (positions ! c ! t) else ?z ! t ! c) \<and>
          B ! t ! c = (if c \<in> set ranks
                       then snd (columns_of prop_name) (positions ! c ! t) else ?z ! t ! c))"
    by blast
  have "?z ! t ! c = Fin 0" if "t < ?n" "c < ?m" for t c
    using that by (simp add: zeros2_def)
  with res(4) have "\<forall>t<?n. length (A ! t) = ?m \<and> length (B ! t) = ?m \<and>
       (\<forall>c<?m.
          A ! t ! c = (if c \<in> set ranks
                       then fst (columns_of prop_name) (positions ! c ! t) else Fin 0) \<and>
          B ! t ! c = (if c \<in> set ranks
                       then snd (columns_of prop_name) (positions ! c ! t) else Fin 0))"
    by simp
  moreover from res(1) assms(1) have
    "load_property positions ranks timesteps prop_name = Inr (Some (derive prop_name A B))"
    by (simp add: load_property_eq)
  ultimately show ?thesis using res(2,3) by blast
qed

lemma load_property_fault:
  assumes "prop_name \<in> set recognised" "\<exists>r\<in>set ranks. length ranks \<le> r"
  shows "\<exists>e. load_property positions ranks timesteps prop_name = Inl e"
proof -
  from fill_columns_fault [OF assms(2)] obtain e where
    "fill_columns positions (fst (columns_of prop_name)) (snd (columns_of prop_name))
       (length ranks) ranks
       (zeros2 (length timesteps) (length ranks), zeros2 (length timesteps) (length ranks)) = Inl e"
    by blast
  with assms(1) show ?thesis by (simp add: load_property_eq)
qed

lemma has_shape_I:
  "length arr = n \<Longrightarrow> \<forall>t<n. length (arr ! t) = m \<Longrightarrow> has_shape n m arr"
  by (simp add: has_shape_def list_all_length)

lemma derive_shape:
  assumes "length A = n" "length B = n" "\<forall>t<n. length (A ! t) = m \<and> length (B ! t) = m"
  shows "list_all (has_shape n m) (arrays_of (derive prop_name A B))"
  using assms by (auto simp add: derive_def intro!: has_shape_I)

section \<open>Facts about the entry point\<close>

lemma strictly_sorted_ranks:
  assumes "sorted_wrt (<) ranks" "\<forall>r\<in>set ranks. r < length ranks"
  shows "ranks = [0..<length ranks]"
proof -
  from assms(1) have sd: "sorted ranks" "distinct ranks"
    by (simp_all add: strict_sorted_iff)
  from assms(2) have sub: "set ranks \<subseteq> {0..<length ranks}" by auto
  from sd(2) have "card (set ranks) = card {0..<length ranks}"
    by (simp add: distinct_card)
  with sub have "set ranks = set [0..<length ranks]"
    by (simp add: card_subset_eq)
  with sd show ?thesis
    by (intro sorted_distinct_set_unique) simp_all
qed

lemma has_shape_valid_input:
  assumes "has_shape (length timesteps) (length ranks) arr" "length rankfield = length timesteps"
  shows "valid_input rankfield timesteps ranks arr"
  using assms by (simp add: valid_input_def has_shape_def list_all_length)

lemma get_field_identity_ranks:
  assumes "has_shape (length timesteps) (length ranks) arr" "length rankfield = length timesteps"
    and "ranks = [0..<length ranks]"
  shows "\<exists>out. get_field rankfield timesteps ranks arr = Inr out \<and>
           (\<forall>t<length timesteps. \<forall>r\<in>set ranks. \<forall>y<length (rankfield ! t).
              \<forall>x<length (rankfield ! t ! y).
                rankfield ! t ! y ! x = Fin (real r) \<longrightarrow> out ! t ! y ! x = arr ! t ! r)"
proof -
  have v: "valid_input rankfield timesteps ranks arr"
    using assms(1,2) by (rule has_shape_valid_input)
  from get_field_pixel [OF v] obtain out where out:
    "get_field rankfield timesteps ranks arr = Inr out" by blast
  have id: "ranks ! r = r" if "r < length ranks" for r
    using that assms(3) by (metis add_0 nth_upt)
  have "out ! t ! y ! x = arr ! t ! r"
    if "t < length timesteps" "r \<in> set ranks" "y < length (rankfield ! t)"
      "x < length (rankfield ! t ! y)" "rankfield ! t ! y ! x = Fin (real r)" for t r y x
  proof -
    from that(2) assms(3) have r: "r < length ranks" by (metis atLeastLessThan_iff set_upt)
    have later: "\<forall>j<length ranks. r < j \<longrightarrow> ranks ! j \<noteq> ranks ! r"
      using id r by simp
    from get_field_position [OF v that(1) r later that(3,4)] that(5) id [OF r] out
    show ?thesis by simp
  qed
  with out show ?thesis by blast
qed

lemma load_fields_eq:
  assumes "prop_name \<in> set recognised"
    and "load_property positions ranks timesteps prop_name = Inr (Some (derive prop_name A B))"
  shows "load_fields positions ranks rankfield timesteps prop_name =
     (case derive prop_name A B of
        Two_arrays p0 p1 \<Rightarrow>
          (case get_field rankfield timesteps ranks p0 of
             Inl e \<Rightarrow> Inl e
           | Inr f0 \<Rightarrow>
               (case get_field rankfield timesteps ranks p1 of
                  Inl e \<Rightarrow> Inl e
                | Inr f1 \<Rightarrow> Inr (Some (Two_fields f0 f1))))
      | One_array p \<Rightarrow>
          (case get_field rankfield timesteps ranks p of
             Inl e \<Rightarrow> Inl e
           | Inr f \<Rightarrow> Inr (Some (One_field f))))"
  using assms by (auto simp add: recognised_def load_fields_def derive_def)

lemma derive_entry:
  assumes "prop_name \<in> set recognised"
    and "length A = n" "length B = n" "length (A ! t) = m" "length (B ! t) = m" "t < n" "r < m"
    and "A ! t ! r = fst (columns_of prop_name) \<rho>"
    and "B ! t ! r = snd (columns_of prop_name) \<rho>"
  shows "map (\<lambda>arr. arr ! t ! r) (arrays_of (derive prop_name A B)) = resolved_entry prop_name \<rho>"
  using assms
  by (auto simp add: recognised_def derive_def resolved_entry_def columns_of_def)


lemma paint_all:
  assumes "list_all (has_shape (length timesteps) (length ranks)) (arrays_of res)"
    and "length rankfield = length timesteps" and "ranks = [0..<length ranks]"
  shows "\<exists>flds.
     (case res of
        Two_arrays p0 p1 \<Rightarrow>
          (case get_field rankfield timesteps ranks p0 of
             Inl e \<Rightarrow> Inl e
           | Inr f0 \<Rightarrow>
               (case get_field rankfield timesteps ranks p1 of
                  Inl e \<Rightarrow> Inl e
                | Inr f1 \<Rightarrow> Inr (Some (Two_fields f0 f1))))
      | One_array p \<Rightarrow>
          (case get_field rankfield timesteps ranks p of
             Inl e \<Rightarrow> Inl e
           | Inr f \<Rightarrow> Inr (Some (One_field f)))) = Inr (Some flds) \<and>
     (\<forall>t<length timesteps. \<forall>r\<in>set ranks. \<forall>y<length (rankfield ! t).
        \<forall>x<length (rankfield ! t ! y).
          rankfield ! t ! y ! x = Fin (real r) \<longrightarrow>
          map (\<lambda>f. f ! t ! y ! x) (fields_of flds) = map (\<lambda>arr. arr ! t ! r) (arrays_of res))"
proof (cases res)
  case (Two_arrays p0 p1)
  with assms(1) have s: "has_shape (length timesteps) (length ranks) p0"
    "has_shape (length timesteps) (length ranks) p1" by simp_all
  from get_field_identity_ranks [OF s(1) assms(2,3)] obtain f0 where f0:
    "get_field rankfield timesteps ranks p0 = Inr f0"
    "\<forall>t<length timesteps. \<forall>r\<in>set ranks. \<forall>y<length (rankfield ! t).
        \<forall>x<length (rankfield ! t ! y).
          rankfield ! t ! y ! x = Fin (real r) \<longrightarrow> f0 ! t ! y ! x = p0 ! t ! r"
    by blast
  from get_field_identity_ranks [OF s(2) assms(2,3)] obtain f1 where f1:
    "get_field rankfield timesteps ranks p1 = Inr f1"
    "\<forall>t<length timesteps. \<forall>r\<in>set ranks. \<forall>y<length (rankfield ! t).
        \<forall>x<length (rankfield ! t ! y).
          rankfield ! t ! y ! x = Fin (real r) \<longrightarrow> f1 ! t ! y ! x = p1 ! t ! r"
    by blast
  from f0(2) f1(2) have "\<forall>t<length timesteps. \<forall>r\<in>set ranks. \<forall>y<length (rankfield ! t).
        \<forall>x<length (rankfield ! t ! y).
          rankfield ! t ! y ! x = Fin (real r) \<longrightarrow>
          map (\<lambda>f. f ! t ! y ! x) (fields_of (Two_fields f0 f1)) =
          map (\<lambda>arr. arr ! t ! r) (arrays_of (Two_arrays p0 p1))"
    by simp
  with Two_arrays f0(1) f1(1) show ?thesis by simp
next
  case (One_array p)
  with assms(1) have s: "has_shape (length timesteps) (length ranks) p" by simp
  from get_field_identity_ranks [OF s assms(2,3)] obtain f where f:
    "get_field rankfield timesteps ranks p = Inr f"
    "\<forall>t<length timesteps. \<forall>r\<in>set ranks. \<forall>y<length (rankfield ! t).
        \<forall>x<length (rankfield ! t ! y).
          rankfield ! t ! y ! x = Fin (real r) \<longrightarrow> f ! t ! y ! x = p ! t ! r"
    by blast
  from f(2) have "\<forall>t<length timesteps. \<forall>r\<in>set ranks. \<forall>y<length (rankfield ! t).
        \<forall>x<length (rankfield ! t ! y).
          rankfield ! t ! y ! x = Fin (real r) \<longrightarrow>
          map (\<lambda>f. f ! t ! y ! x) (fields_of (One_field f)) =
          map (\<lambda>arr. arr ! t ! r) (arrays_of (One_array p))"
    by simp
  with One_array f(1) show ?thesis by simp
qed

lemma ascending_ranks_indexing:
  assumes "prop_name \<in> set recognised"
    and "tables_fit positions ranks (length timesteps)"
    and "sorted_wrt (<) ranks"
    and "length rankfield = length timesteps"
  shows "ranks = [0..<length ranks] \<and>
     (\<exists>res. load_property positions ranks timesteps prop_name = Inr (Some res) \<and>
        list_all (has_shape (length timesteps) (length ranks)) (arrays_of res) \<and>
        (\<forall>t<length timesteps. \<forall>r\<in>set ranks.
           map (\<lambda>arr. arr ! t ! r) (arrays_of res) = resolved_entry prop_name (positions ! r ! t)) \<and>
        (\<exists>flds. load_fields positions ranks rankfield timesteps prop_name = Inr (Some flds) \<and>
           (\<forall>t<length timesteps. \<forall>r\<in>set ranks. \<forall>y<length (rankfield ! t).
              \<forall>x<length (rankfield ! t ! y).
                rankfield ! t ! y ! x = Fin (real r) \<longrightarrow>
                map (\<lambda>f. f ! t ! y ! x) (fields_of flds) =
                map (\<lambda>arr. arr ! t ! r) (arrays_of res))))"
proof -
  let ?n = "length timesteps" and ?m = "length ranks"
  from tables_fit_all [OF assms(2)] have lt: "\<forall>r\<in>set ranks. r < ?m" by blast
  with assms(3) have id: "ranks = [0..<?m]" by (rule strictly_sorted_ranks)
  from load_property_ok [OF assms(1,2)] obtain A B where res:
    "load_property positions ranks timesteps prop_name = Inr (Some (derive prop_name A B))"
    "length A = ?n" "length B = ?n"
    "\<forall>t<?n. length (A ! t) = ?m \<and> length (B ! t) = ?m \<and>
       (\<forall>c<?m.
          A ! t ! c = (if c \<in> set ranks
                       then fst (columns_of prop_name) (positions ! c ! t) else Fin 0) \<and>
          B ! t ! c = (if c \<in> set ranks
                       then snd (columns_of prop_name) (positions ! c ! t) else Fin 0))"
    by blast
  let ?res = "derive prop_name A B"
  from res(2,3,4) have shape: "list_all (has_shape ?n ?m) (arrays_of ?res)"
    by (intro derive_shape) simp_all
  have entry: "map (\<lambda>arr. arr ! t ! r) (arrays_of ?res) = resolved_entry prop_name (positions ! r ! t)"
    if "t < ?n" "r \<in> set ranks" for t r
  proof -
    from lt that(2) have r: "r < ?m" by blast
    from res(4) that r have
      "length (A ! t) = ?m" "length (B ! t) = ?m"
      "A ! t ! r = fst (columns_of prop_name) (positions ! r ! t)"
      "B ! t ! r = snd (columns_of prop_name) (positions ! r ! t)"
      by simp_all
    with assms(1) res(2,3) that(1) r show ?thesis by (intro derive_entry)
  qed
  from paint_all [OF shape assms(4) id] load_fields_eq [OF assms(1) res(1), of rankfield]
  obtain flds where flds:
    "load_fields positions ranks rankfield timesteps prop_name = Inr (Some flds)"
    "\<forall>t<?n. \<forall>r\<in>set ranks. \<forall>y<length (rankfield ! t). \<forall>x<length (rankfield ! t ! y).
       rankfield ! t ! y ! x = Fin (real r) \<longrightarrow>
       map (\<lambda>f. f ! t ! y ! x) (fields_of flds) = map (\<lambda>arr. arr ! t ! r) (arrays_of ?res)"
    by auto
  from entry have e: "\<forall>t<?n. \<forall>r\<in>set ranks.
      map (\<lambda>arr. arr ! t ! r) (arrays_of ?res) = resolved_entry prop_name (positions ! r ! t)"
    by blast
  from flds have f: "\<exists>flds. load_fields positions ranks rankfield timesteps prop_name = Inr (Some flds) \<and>
           (\<forall>t<?n. \<forall>r\<in>set ranks. \<forall>y<length (rankfield ! t).
              \<forall>x<length (rankfield ! t ! y).
                rankfield ! t ! y ! x = Fin (real r) \<longrightarrow>
                map (\<lambda>f. f ! t ! y ! x) (fields_of flds) =
                map (\<lambda>arr. arr ! t ! r) (arrays_of ?res))"
    by blast
  from id res(1) shape e f show ?thesis
    by - (rule conjI, assumption, rule exI [of _ ?res], intro conjI, assumption+)
qed

section \<open>Claims about the painter\<close>


text \<open>
  C2. On a valid input the painter returns a field (no error), and every pixel whose
  rank-grid value equals no rank of the rank list (the unoccupied value, a rank that was
  not loaded, not-a-number) holds zero, at every timestep.
\<close>

theorem unknown_rank_pixels_zero:
  assumes "valid_input rankfield timesteps ranks a"
    and "t < length rankfield" and "y < length (rankfield ! t)"
    and "x < length (rankfield ! t ! y)"
    and "\<forall>r\<in>set ranks. \<not> np_eq_rank (rankfield ! t ! y ! x) r"
  shows "\<exists>out. get_field rankfield timesteps ranks a = Inr out \<and> out ! t ! y ! x = Fin 0"
proof -
  from get_field_pixel [OF assms(1)] assms(2,3,4) obtain out where out:
    "get_field rankfield timesteps ranks a = Inr out"
    "out ! t ! y ! x = pixel_paint (rankfield ! t ! y ! x) (a ! t) (enumerate 0 ranks) (Fin 0)"
    by blast
  have "\<forall>ir\<in>set (enumerate 0 ranks). \<not> np_eq_rank (rankfield ! t ! y ! x) (snd ir)"
  proof
    fix ir assume "ir \<in> set (enumerate 0 ranks)"
    then have "snd ir \<in> set ranks"
      by (metis in_set_zipE enumerate_eq_zip prod.collapse)
    with assms(5) show "\<not> np_eq_rank (rankfield ! t ! y ! x) (snd ir)" by blast
  qed
  with out show ?thesis by (simp add: pixel_paint_no_match)
qed

theorem unknown_rank_pixels_zero_witness:
  "valid_input [[[Fin (- 1), Fin 7, NaN]]] [Fin 0] [0, 1] [[Fin 3, Fin 4]] \<and>
   \<not> np_eq_rank ([[[Fin (- 1), Fin 7, NaN]]] ! 0 ! 0 ! 0) 0 \<and>
   \<not> np_eq_rank ([[[Fin (- 1), Fin 7, NaN]]] ! 0 ! 0 ! 0) 1 \<and>
   get_field [[[Fin (- 1), Fin 7, NaN]]] [Fin 0] [0, 1] [[Fin 3, Fin 4]] =
     Inr [[[Fin 0, Fin 0, Fin 0]]] \<and>
   (\<exists>out. get_field [[[Fin (- 1), Fin 7, NaN]]] [Fin 0] [0, 1] [[Fin 3, Fin 4]] = Inr out \<and>
      out ! 0 ! 0 ! 0 = Fin 0)"
proof -
  let ?rf = "[[[Fin (- 1), Fin 7, NaN]]]"
  have v: "valid_input ?rf [Fin 0] [0, 1] [[Fin 3, Fin 4]]" by (simp add: valid_input_def)
  have n: "\<forall>r\<in>set [0, 1]. \<not> np_eq_rank (?rf ! 0 ! 0 ! 0) r" by simp
  have g: "get_field ?rf [Fin 0] [0, 1] [[Fin 3, Fin 4]] = Inr [[[Fin 0, Fin 0, Fin 0]]]"
    by code_simp
  have "\<exists>out. get_field ?rf [Fin 0] [0, 1] [[Fin 3, Fin 4]] = Inr out \<and> out ! 0 ! 0 ! 0 = Fin 0"
    by (rule unknown_rank_pixels_zero [OF v _ _ _ n]) simp_all
  with v n g show ?thesis by simp
qed

text \<open>
  C8. On a valid input the painter returns as many fields as there are timesteps, and
  every field has the rows and the row lengths of the rank-grid snapshot of its timestep.
\<close>

theorem painter_shape:
  assumes "valid_input rankfield timesteps ranks a"
  shows "\<exists>out. get_field rankfield timesteps ranks a = Inr out \<and>
           length out = length timesteps \<and>
           map (map length) out = map (map length) rankfield"
  using get_field_pixel [OF assms] assms by (auto simp: valid_input_def)

theorem painter_shape_witness:
  "valid_input [[[Fin 0, Fin 1]], [[Fin 0, Fin 1]]] [Fin 0, Fin 1] [0, 1]
     [[Fin 1, Fin 2], [Fin 3, Fin 4]] \<and>
   (\<exists>out. get_field [[[Fin 0, Fin 1]], [[Fin 0, Fin 1]]] [Fin 0, Fin 1] [0, 1]
            [[Fin 1, Fin 2], [Fin 3, Fin 4]] = Inr out \<and>
          length out = length [Fin 0, Fin 1] \<and>
          map (map length) out = map (map length) [[[Fin 0, Fin 1]], [[Fin 0, Fin 1]]])"
proof -
  have v: "valid_input [[[Fin 0, Fin 1]], [[Fin 0, Fin 1]]] [Fin 0, Fin 1] [0, 1]
     [[Fin 1, Fin 2], [Fin 3, Fin 4]]" by (simp add: valid_input_def)
  from painter_shape [OF v] v show ?thesis by blast
qed

section \<open>Claims about the property resolver\<close>

text \<open>
  C3, as the code has it. The arrays of \<^verbatim>\<open>load_property\<close> are made by
  \<^verbatim>\<open>np.zeros([len(times), len(ranks)])\<close>: their rank dimension is the number of loaded
  ranks, not the largest rank plus one. For a recognised property name, a loaded rank that
  is not below the number of loaded ranks makes the call raise, and when the tables fit
  (every loaded rank is below the number of ranks and of tables, and its table has one row
  per timestep) the call returns arrays with one row per timestep and one column per
  loaded rank.
\<close>

theorem rank_columns_in_bounds:
  assumes "prop_name \<in> set recognised"
  shows "((\<exists>r\<in>set ranks. length ranks \<le> r) \<longrightarrow>
            (\<exists>e. load_property positions ranks timesteps prop_name = Inl e)) \<and>
         (tables_fit positions ranks (length timesteps) \<longrightarrow>
            (\<exists>res. load_property positions ranks timesteps prop_name = Inr (Some res) \<and>
                   list_all (has_shape (length timesteps) (length ranks)) (arrays_of res)))"
proof (intro conjI impI)
  assume "\<exists>r\<in>set ranks. length ranks \<le> r"
  with assms show "\<exists>e. load_property positions ranks timesteps prop_name = Inl e"
    by (rule load_property_fault)
next
  assume "tables_fit positions ranks (length timesteps)"
  from load_property_ok [OF assms this] obtain A B where
    "load_property positions ranks timesteps prop_name = Inr (Some (derive prop_name A B))"
    "length A = length timesteps" "length B = length timesteps"
    "\<forall>t<length timesteps. length (A ! t) = length ranks \<and> length (B ! t) = length ranks"
    by blast
  then show "\<exists>res. load_property positions ranks timesteps prop_name = Inr (Some res) \<and>
                   list_all (has_shape (length timesteps) (length ranks)) (arrays_of res)"
    using derive_shape [of A "length timesteps" B "length ranks" prop_name] by blast
qed

theorem rank_columns_in_bounds_witness:
  "''velocity'' \<in> set recognised \<and>
   (\<exists>r\<in>set [5]. length [5::nat] \<le> r) \<and>
   (\<exists>e. load_property
      [[\<lparr>row_v0 = Fin 1, row_v1 = Fin 0, row_S0 = Fin 0, row_S1 = Fin 1, row_S0full = Fin 0, row_S1full = Fin 1\<rparr>]]
      [5] [Fin 0] ''velocity'' = Inl e) \<and>
   tables_fit
      [[\<lparr>row_v0 = Fin 1, row_v1 = Fin 0, row_S0 = Fin 0, row_S1 = Fin 1, row_S0full = Fin 0, row_S1full = Fin 1\<rparr>],
       [\<lparr>row_v0 = Fin 2, row_v1 = Fin 3, row_S0 = Fin 0, row_S1 = Fin 1, row_S0full = Fin 0, row_S1full = Fin 1\<rparr>]]
      [0, 1] (length [Fin 0]) \<and>
   (\<exists>res. load_property
      [[\<lparr>row_v0 = Fin 1, row_v1 = Fin 0, row_S0 = Fin 0, row_S1 = Fin 1, row_S0full = Fin 0, row_S1full = Fin 1\<rparr>],
       [\<lparr>row_v0 = Fin 2, row_v1 = Fin 3, row_S0 = Fin 0, row_S1 = Fin 1, row_S0full = Fin 0, row_S1full = Fin 1\<rparr>]]
      [0, 1] [Fin 0] ''velocity'' = Inr (Some res) \<and>
      list_all (has_shape (length [Fin 0]) (length [0, 1::nat])) (arrays_of res))"
proof -
  let ?ra = "\<lparr>row_v0 = Fin 1, row_v1 = Fin 0, row_S0 = Fin 0, row_S1 = Fin 1, row_S0full = Fin 0, row_S1full = Fin 1\<rparr>"
  let ?rb = "\<lparr>row_v0 = Fin 2, row_v1 = Fin 3, row_S0 = Fin 0, row_S1 = Fin 1, row_S0full = Fin 0, row_S1full = Fin 1\<rparr>"
  have rec: "''velocity'' \<in> set recognised" by (simp add: recognised_def)
  have bad: "\<exists>r\<in>set [5]. length [5::nat] \<le> r" by simp
  have fit: "tables_fit [[?ra], [?rb]] [0, 1] (length [Fin 0])" by (simp add: tables_fit_def)
  from rank_columns_in_bounds [OF rec, of "[5]" "[[?ra]]" "[Fin 0]"] bad
  have 1: "\<exists>e. load_property [[?ra]] [5] [Fin 0] ''velocity'' = Inl e" by blast
  from rank_columns_in_bounds [OF rec, of "[0, 1]" "[[?ra], [?rb]]" "[Fin 0]"] fit
  have 2: "\<exists>res. load_property [[?ra], [?rb]] [0, 1] [Fin 0] ''velocity'' = Inr (Some res) \<and>
      list_all (has_shape (length [Fin 0]) (length [0, 1::nat])) (arrays_of res)" by blast
  from rec bad 1 fit 2 show ?thesis by blast
qed

text \<open>
  C3 as stated fails for the rank list that holds the single rank 5: the arrays have one
  column, writing column 5 is out of bounds, and the call raises IndexError.
\<close>

theorem rank_columns_in_bounds_counterexample:
  "load_property
     [[\<lparr>row_v0 = Fin 1, row_v1 = Fin 0, row_S0 = Fin 0, row_S1 = Fin 1, row_S0full = Fin 0, row_S1full = Fin 1\<rparr>]]
     [5] [Fin 0] ''velocity'' = Inl IndexError \<and>
   zeros2 (length [Fin 0]) (length [5::nat]) = [[Fin 0]] \<and>
   assign_column (length [5::nat]) (zeros2 (length [Fin 0]) (length [5::nat])) 5 [Fin 1] =
     Inl IndexError"
  by (simp add: load_property_def zeros2_def assign_column_def)


text \<open>
  C5. When the tables fit, the nematic angle resolver returns an array whose entry for
  timestep \<open>t\<close> and loaded rank \<open>r\<close> is the numpy expression applied to \<open>S0full\<close> and
  \<open>S1full\<close> of that row; for finite entries with \<open>S1full \<noteq> 0\<close> this is
  \<open>sgn S1 * (arctan (S0 / \<bar>S1\<bar>) / 2 + \<pi> / 4)\<close>, which is \<open>\<pi> / 4\<close> for \<open>S0full = 0\<close>
  (a zero of either sign), \<open>S1full = 1\<close> and \<open>- \<pi> / 4\<close> for \<open>S0full = 0\<close>,
  \<open>S1full = - 1\<close>.
\<close>

theorem nematic_angle_resolver:
  assumes "tables_fit positions ranks (length timesteps)"
  shows "\<exists>ang. load_property positions ranks timesteps ''nematic angle'' = Inr (Some (One_array ang)) \<and>
     (\<forall>t<length timesteps. \<forall>r\<in>set ranks.
        ang ! t ! r = nem_orient (row_S0full (positions ! r ! t)) (row_S1full (positions ! r ! t)) \<and>
        (\<forall>S0 S1. row_S0full (positions ! r ! t) = Fin S0 \<and>
                 row_S1full (positions ! r ! t) = Fin S1 \<and> S1 \<noteq> 0 \<longrightarrow>
           ang ! t ! r = Fin (sgn S1 * (arctan (S0 / \<bar>S1\<bar>) / 2 + pi / 4))) \<and>
        (is_zero (row_S0full (positions ! r ! t)) \<and> row_S1full (positions ! r ! t) = Fin 1 \<longrightarrow>
           ang ! t ! r = Fin (pi / 4)) \<and>
        (is_zero (row_S0full (positions ! r ! t)) \<and> row_S1full (positions ! r ! t) = Fin (- 1) \<longrightarrow>
           ang ! t ! r = Fin (- pi / 4)))"
proof -
  have rec: "''nematic angle'' \<in> set recognised" by (simp add: recognised_def)
  from load_property_ok [OF rec assms] obtain A B where res:
    "load_property positions ranks timesteps ''nematic angle'' =
       Inr (Some (derive ''nematic angle'' A B))"
    "length A = length timesteps" "length B = length timesteps"
    "\<forall>t<length timesteps. length (A ! t) = length ranks \<and> length (B ! t) = length ranks \<and>
       (\<forall>c<length ranks.
          A ! t ! c = (if c \<in> set ranks
                       then fst (columns_of ''nematic angle'') (positions ! c ! t) else Fin 0) \<and>
          B ! t ! c = (if c \<in> set ranks
                       then snd (columns_of ''nematic angle'') (positions ! c ! t) else Fin 0))"
    by blast
  let ?ang = "map2 (map2 nem_orient) A B"
  have d: "derive ''nematic angle'' A B = One_array ?ang" by (simp add: derive_def)
  have entry: "?ang ! t ! r = nem_orient (row_S0full (positions ! r ! t))
                                 (row_S1full (positions ! r ! t))"
    if "t < length timesteps" "r \<in> set ranks" for t r
  proof -
    from tables_fit_all [OF assms] that(2) have r: "r < length ranks" by blast
    from res(4) that(1) r that(2) have
      "A ! t ! r = row_S0full (positions ! r ! t)"
      "B ! t ! r = row_S1full (positions ! r ! t)"
      "length (A ! t) = length ranks" "length (B ! t) = length ranks"
      by (simp_all add: columns_of_def)
    with that(1) r res(2,3) show ?thesis by simp
  qed
  have zero: "nem_orient z (Fin 1) = Fin (pi / 4)" "nem_orient z (Fin (- 1)) = Fin (- pi / 4)"
    if "is_zero z" for z
    using that nem_orient_values nem_orient_negzero by (cases z; simp)+
  have "\<forall>t<length timesteps. \<forall>r\<in>set ranks.
        ?ang ! t ! r = nem_orient (row_S0full (positions ! r ! t)) (row_S1full (positions ! r ! t)) \<and>
        (\<forall>S0 S1. row_S0full (positions ! r ! t) = Fin S0 \<and>
                 row_S1full (positions ! r ! t) = Fin S1 \<and> S1 \<noteq> 0 \<longrightarrow>
           ?ang ! t ! r = Fin (sgn S1 * (arctan (S0 / \<bar>S1\<bar>) / 2 + pi / 4))) \<and>
        (is_zero (row_S0full (positions ! r ! t)) \<and> row_S1full (positions ! r ! t) = Fin 1 \<longrightarrow>
           ?ang ! t ! r = Fin (pi / 4)) \<and>
        (is_zero (row_S0full (positions ! r ! t)) \<and> row_S1full (positions ! r ! t) = Fin (- 1) \<longrightarrow>
           ?ang ! t ! r = Fin (- pi / 4))"
    using entry nem_orient_finite zero by simp
  moreover from res(1) d have
    "load_property positions ranks timesteps ''nematic angle'' = Inr (Some (One_array ?ang))"
    by simp
  ultimately show ?thesis by - (rule exI [of _ ?ang], intro conjI, assumption+)
qed

theorem nematic_angle_resolver_witness:
  "tables_fit
     [[\<lparr>row_v0 = Fin 0, row_v1 = Fin 0, row_S0 = Fin 0, row_S1 = Fin 0, row_S0full = Fin 0, row_S1full = Fin 1\<rparr>,
       \<lparr>row_v0 = Fin 0, row_v1 = Fin 0, row_S0 = Fin 0, row_S1 = Fin 0, row_S0full = Fin 0, row_S1full = Fin (- 1)\<rparr>]]
     [0] (length [Fin 0, Fin 1]) \<and>
   (\<exists>ang. load_property
     [[\<lparr>row_v0 = Fin 0, row_v1 = Fin 0, row_S0 = Fin 0, row_S1 = Fin 0, row_S0full = Fin 0, row_S1full = Fin 1\<rparr>,
       \<lparr>row_v0 = Fin 0, row_v1 = Fin 0, row_S0 = Fin 0, row_S1 = Fin 0, row_S0full = Fin 0, row_S1full = Fin (- 1)\<rparr>]]
     [0] [Fin 0, Fin 1] ''nematic angle'' = Inr (Some (One_array ang)) \<and>
     ang ! 0 ! 0 = Fin (pi / 4) \<and> ang ! 1 ! 0 = Fin (- pi / 4))"
proof -
  let ?P = "[[\<lparr>row_v0 = Fin 0, row_v1 = Fin 0, row_S0 = Fin 0, row_S1 = Fin 0, row_S0full = Fin 0, row_S1full = Fin 1\<rparr>,
       \<lparr>row_v0 = Fin 0, row_v1 = Fin 0, row_S0 = Fin 0, row_S1 = Fin 0, row_S0full = Fin 0, row_S1full = Fin (- 1)\<rparr>]]"
  have fit: "tables_fit ?P [0] (length [Fin 0, Fin 1])" by (simp add: tables_fit_def)
  from nematic_angle_resolver [OF fit] obtain ang where a:
    "load_property ?P [0] [Fin 0, Fin 1] ''nematic angle'' = Inr (Some (One_array ang))"
    "\<forall>t<length [Fin 0, Fin 1]. \<forall>r\<in>set [0].
        (is_zero (row_S0full (?P ! r ! t)) \<and> row_S1full (?P ! r ! t) = Fin 1 \<longrightarrow>
           ang ! t ! r = Fin (pi / 4)) \<and>
        (is_zero (row_S0full (?P ! r ! t)) \<and> row_S1full (?P ! r ! t) = Fin (- 1) \<longrightarrow>
           ang ! t ! r = Fin (- pi / 4))"
    by blast
  from a(2) have "ang ! 0 ! 0 = Fin (pi / 4)" by force
  moreover from a(2) have "ang ! 1 ! 0 = Fin (- pi / 4)" by force
  ultimately show ?thesis using fit a(1) by blast
qed




text \<open>
  C7. For a property name that is none of the five recognised names, \<^verbatim>\<open>load_property\<close>
  and \<^verbatim>\<open>load_fields\<close> return \<^verbatim>\<open>None\<close> and raise nothing, whatever was loaded.
\<close>

theorem unrecognised_property_none:
  assumes "prop_name \<notin> set [''velocity'', ''normalised nematic'', ''nematic'',
                              ''velocity angle'', ''nematic angle'']"
  shows "load_property positions ranks timesteps prop_name = Inr None \<and>
         load_fields positions ranks rankfield timesteps prop_name = Inr None"
  using assms by (simp add: load_property_def load_fields_def)

theorem unrecognised_property_none_witness:
  "''speed'' \<notin> set [''velocity'', ''normalised nematic'', ''nematic'', ''velocity angle'',
                     ''nematic angle''] \<and>
   load_property [] [] [] ''speed'' = Inr None \<and>
   load_fields [] [] [] [] ''speed'' = Inr None"
proof -
  have h: "''speed'' \<notin> set [''velocity'', ''normalised nematic'', ''nematic'', ''velocity angle'',
                     ''nematic angle'']" by simp
  from unrecognised_property_none [OF h, of "[]" "[]" "[]" "[]"] h show ?thesis by simp
qed

section \<open>Claims about the effects of the painter\<close>

text \<open>
  C9. With the four arrays at addresses of the store, what a call of the painter returns
  (the error, or the contents of the new field) is the value of the function
  \<open>get_field\<close> at the contents of the four arrays, and a second call, made on the store
  that the first call leaves, returns the same.
\<close>

theorem get_field_repeatable:
  assumes "rf_ref < length h" "times_ref < length h" "ranks_ref < length h" "a_ref < length h"
    and "h ! rf_ref = Floats3 rankfield" "h ! times_ref = Floats1 timesteps"
    and "h ! ranks_ref = Ints ranks" "h ! a_ref = Floats2 a"
  shows "outcome (get_field_store rf_ref times_ref ranks_ref a_ref h) =
           (case get_field rankfield timesteps ranks a of
              Inl e \<Rightarrow> Inl e | Inr f \<Rightarrow> Inr (Floats3 f)) \<and>
         outcome (get_field_store rf_ref times_ref ranks_ref a_ref
                    (fst (get_field_store rf_ref times_ref ranks_ref a_ref h))) =
           outcome (get_field_store rf_ref times_ref ranks_ref a_ref h)"
proof -
  from get_field_store_eq [OF assms] obtain g where g:
    "fst (get_field_store rf_ref times_ref ranks_ref a_ref h) = h @ [Floats3 g]"
    "outcome (get_field_store rf_ref times_ref ranks_ref a_ref h) =
       (case get_field rankfield timesteps ranks a of
          Inl e \<Rightarrow> Inl e | Inr f \<Rightarrow> Inr (Floats3 f))"
    by blast
  let ?h1 = "h @ [Floats3 g]"
  from assms have
    "rf_ref < length ?h1" "times_ref < length ?h1" "ranks_ref < length ?h1" "a_ref < length ?h1"
    "?h1 ! rf_ref = Floats3 rankfield" "?h1 ! times_ref = Floats1 timesteps"
    "?h1 ! ranks_ref = Ints ranks" "?h1 ! a_ref = Floats2 a"
    by (simp_all add: nth_append)
  from get_field_store_eq [OF this] g show ?thesis by auto
qed

theorem get_field_repeatable_witness:
  "outcome (get_field_store 0 1 2 3
       [Floats3 [[[Fin 0, Fin 1]]], Floats1 [Fin 0], Ints [0, 1], Floats2 [[Fin 3, Fin 4]]]) =
     Inr (Floats3 [[[Fin 3, Fin 4]]]) \<and>
   outcome (get_field_store 0 1 2 3
     (fst (get_field_store 0 1 2 3
       [Floats3 [[[Fin 0, Fin 1]]], Floats1 [Fin 0], Ints [0, 1], Floats2 [[Fin 3, Fin 4]]]))) =
     Inr (Floats3 [[[Fin 3, Fin 4]]])"
proof -
  let ?h = "[Floats3 [[[Fin 0, Fin 1]]], Floats1 [Fin 0], Ints [0, 1], Floats2 [[Fin 3, Fin 4]]]"
  have g: "get_field [[[Fin 0, Fin 1]]] [Fin 0] [0, 1] [[Fin 3, Fin 4]] = Inr [[[Fin 3, Fin 4]]]"
    by code_simp
  have "outcome (get_field_store 0 1 2 3 ?h) =
           (case get_field [[[Fin 0, Fin 1]]] [Fin 0] [0, 1] [[Fin 3, Fin 4]] of
              Inl e \<Rightarrow> Inl e | Inr f \<Rightarrow> Inr (Floats3 f)) \<and>
         outcome (get_field_store 0 1 2 3 (fst (get_field_store 0 1 2 3 ?h))) =
           outcome (get_field_store 0 1 2 3 ?h)"
    by (rule get_field_repeatable) simp_all
  with g show ?thesis by simp
qed

text \<open>
  C10. For every store and every four addresses, a call of the painter leaves every array
  that was in the store as it was: the store it leaves is the old store, followed by at
  most one new array (the output field).
\<close>

theorem get_field_leaves_inputs:
  "take (length h) (fst (get_field_store rf_ref times_ref ranks_ref a_ref h)) = h \<and>
   length (fst (get_field_store rf_ref times_ref ranks_ref a_ref h)) \<le> Suc (length h)"
  using get_field_store_frame [of rf_ref times_ref ranks_ref a_ref h] by auto

theorem get_field_leaves_inputs_witness:
  "get_field_store 0 1 2 3
       [Floats3 [[[Fin 0, Fin 1]]], Floats1 [Fin 0], Ints [0, 1], Floats2 [[Fin 3, Fin 4]]] =
     ([Floats3 [[[Fin 0, Fin 1]]], Floats1 [Fin 0], Ints [0, 1], Floats2 [[Fin 3, Fin 4]],
       Floats3 [[[Fin 3, Fin 4]]]], Inr 4) \<and>
   take (length [Floats3 [[[Fin 0, Fin 1]]], Floats1 [Fin 0], Ints [0, 1], Floats2 [[Fin 3, Fin 4]]])
     (fst (get_field_store 0 1 2 3
       [Floats3 [[[Fin 0, Fin 1]]], Floats1 [Fin 0], Ints [0, 1], Floats2 [[Fin 3, Fin 4]]])) =
     [Floats3 [[[Fin 0, Fin 1]]], Floats1 [Fin 0], Ints [0, 1], Floats2 [[Fin 3, Fin 4]]]"
proof -
  let ?h = "[Floats3 [[[Fin 0, Fin 1]]], Floats1 [Fin 0], Ints [0, 1], Floats2 [[Fin 3, Fin 4]]]"
  have "get_field_store 0 1 2 3 ?h = (?h @ [Floats3 [[[Fin 3, Fin 4]]]], Inr 4)"
    by code_simp
  with get_field_leaves_inputs [of ?h 0 1 2 3] show ?thesis by simp
qed

end
